theory Spec2Isabelle
  imports Main "HOL-Library.Word"
begin

section \<open>The transaction context of Peloton (src/concurrency/transaction_context.cpp)\<close>

subsection \<open>Types declared in headers\<close>

text \<open>
  \<^verbatim>\<open>cid_t\<close>, \<^verbatim>\<open>eid_t\<close> and \<^verbatim>\<open>size_t\<close> are unsigned 64-bit integers; \<open>>>\<close> on them is
  the logical shift \<open>drop_bit\<close>.
\<close>

type_synonym cid_t = "64 word"
type_synonym eid_t = "64 word"
type_synonym size_t = "64 word"

text \<open>
  Modelled from the spec: \<^verbatim>\<open>INVALID_CID\<close> is declared in a header that is not
  available; the specification fixes it to 0.
\<close>

definition INVALID_CID :: cid_t where
  "INVALID_CID = 0"

text \<open>
  Modelled from the spec: \<^verbatim>\<open>ItemPointer\<close> is declared in a header that is not
  available. The specification describes a slot location as a pair \<open>(block_id, offset)\<close>
  with structural equality.
\<close>

datatype ItemPointer = ItemPointer (block: nat) (offset: nat)

text \<open>
  The enumeration \<^verbatim>\<open>RWType\<close>: its seven enumerators are the case labels of the switch
  statements of the \<^verbatim>\<open>Record*\<close> functions.
\<close>

datatype RWType = INVALID | READ | READ_OWN | UPDATE | INSERT | DELETE | INS_DEL

text \<open>
  Modelled from the spec: \<^verbatim>\<open>IsolationLevelType\<close> is declared in a header that is
  not available; the specification lists four levels. The value is only stored.
\<close>

datatype IsolationLevelType = SERIALIZABLE | SNAPSHOT | REPEATABLE_READS | READ_COMMITTED

text \<open>
  Modelled from the spec: the garbage sets are declared in headers that are not available.
  \<^verbatim>\<open>GCSet\<close> maps a block to a map from offsets to a version type, \<^verbatim>\<open>GCObjectSet\<close>
  is a sequence of (database, table, index) triples. The version type is left abstract.
\<close>

typedecl GCVersionType

type_synonym GCSet = "nat \<rightharpoonup> (nat \<rightharpoonup> GCVersionType)"
type_synonym GCObjectSet = "(nat \<times> nat \<times> nat) list"

text \<open>
  \<^verbatim>\<open>ReadWriteSet\<close> is a hash map from \<^verbatim>\<open>ItemPointer\<close> to \<^verbatim>\<open>RWType\<close>: the source uses
  \<^verbatim>\<open>rw_set_.find(location)\<close> and \<^verbatim>\<open>rw_set_[location] = ...\<close>.
\<close>

type_synonym ReadWriteSet = "ItemPointer \<rightharpoonup> RWType"

text \<open>
  A \<^verbatim>\<open>trigger::TriggerSet\<close> is a vector of \<^verbatim>\<open>trigger::TriggerData\<close>
  (\<^verbatim>\<open>push_back\<close> appends). The trigger data itself is opaque here: the type parameter
  \<open>'td\<close>.
\<close>

type_synonym 'td TriggerSet = "'td list"

subsection \<open>The object state\<close>

text \<open>
  The data members that transaction_context.cpp reads or writes (the trailing underscore of
  the member names is dropped). Smart pointers are options: \<open>None\<close> is the null pointer.
  \<^verbatim>\<open>insert_count_\<close> is a 64-bit counter: \<open>++\<close> and \<open>--\<close> wrap around.
\<close>

record 'td TransactionContext =
  read_id :: cid_t
  commit_id :: cid_t
  txn_id :: cid_t
  epoch_id :: eid_t
  thread_id :: size_t
  isolation_level :: IsolationLevelType
  is_written :: bool
  insert_count :: "64 word"
  gc_set :: "GCSet option"
  gc_object_set :: "GCObjectSet option"
  on_commit_triggers :: "'td TriggerSet option"
  rw_set :: ReadWriteSet

subsection \<open>Fatal assertions\<close>

text \<open>
  A failed assertion ends the process. The error value carries the object as it was when the
  assertion fired, so that what a failing call had already written can be stated.
\<close>

datatype 'td error = AssertionFailed "'td TransactionContext"

text \<open>
  Modelled from the spec: the macro \<^verbatim>\<open>PL_ASSERT\<close> is defined in common/macros.h,
  which is not available. The specification treats a failing \<^verbatim>\<open>PL_ASSERT\<close> as a
  fatal assertion: the call does not complete.
\<close>

definition PL_ASSERT :: "bool \<Rightarrow> 'td TransactionContext \<Rightarrow> 'td error + 'td TransactionContext" where
  "PL_ASSERT expr ctx = (if expr then Inr ctx else Inl (AssertionFailed ctx))"

subsection \<open>Init and the constructors\<close>

text \<open>
  \<^verbatim>\<open>
  void TransactionContext::Init(thread_id, isolation, read_id, commit_id) {
    read_id_ = read_id;
    commit_id_ = commit_id;
    txn_id_ = commit_id_;
    epoch_id_ = read_id_ >> 32;
    thread_id_ = thread_id;
    isolation_level_ = isolation;
    is_written_ = false;
    insert_count_ = 0;
    gc_set_.reset(new GCSet());
    gc_object_set_.reset(new GCObjectSet());
    on_commit_triggers_.reset();
  }
  \<close>
  Each assignment reads the member written before it, as the source does.
\<close>

definition Init ::
  "size_t \<Rightarrow> IsolationLevelType \<Rightarrow> cid_t \<Rightarrow> cid_t \<Rightarrow> 'td TransactionContext \<Rightarrow> 'td TransactionContext" where
  "Init tid isolation rid cid ctx =
     (let c1 = ctx\<lparr>read_id := rid\<rparr>;
          c2 = c1\<lparr>commit_id := cid\<rparr>;
          c3 = c2\<lparr>txn_id := commit_id c2\<rparr>;
          c4 = c3\<lparr>epoch_id := drop_bit 32 (read_id c3)\<rparr>;
          c5 = c4\<lparr>thread_id := tid\<rparr>;
          c6 = c5\<lparr>isolation_level := isolation\<rparr>;
          c7 = c6\<lparr>is_written := False\<rparr>;
          c8 = c7\<lparr>insert_count := 0\<rparr>;
          c9 = c8\<lparr>gc_set := Some Map.empty\<rparr>;
          c10 = c9\<lparr>gc_object_set := Some []\<rparr>
      in c10\<lparr>on_commit_triggers := None\<rparr>)"

text \<open>
  Modelled from the spec: the three-argument call \<^verbatim>\<open>Init(thread_id, isolation, read_id)\<close>
  of the first constructor resolves through the declaration of \<^verbatim>\<open>Init\<close> in
  transaction_context.h, which is not available. The specification says that the commit
  id defaults to \<^verbatim>\<open>INVALID_CID\<close>.
\<close>

definition Init3 ::
  "size_t \<Rightarrow> IsolationLevelType \<Rightarrow> cid_t \<Rightarrow> 'td TransactionContext \<Rightarrow> 'td TransactionContext" where
  "Init3 tid isolation rid ctx = Init tid isolation rid INVALID_CID ctx"

text \<open>
  The members when a constructor body starts: the members of class type are default
  constructed (an empty \<^verbatim>\<open>rw_set_\<close>, null smart pointers). The scalar members hold
  indeterminate values; \<open>Init\<close> assigns every one of them, and they are written as zero here.
\<close>

definition default_members :: "'td TransactionContext" where
  "default_members =
     \<lparr>read_id = 0, commit_id = 0, txn_id = 0, epoch_id = 0, thread_id = 0,
      isolation_level = SERIALIZABLE, is_written = False, insert_count = 0,
      gc_set = None, gc_object_set = None, on_commit_triggers = None,
      rw_set = Map.empty\<rparr>"

definition TransactionContext3 ::
  "size_t \<Rightarrow> IsolationLevelType \<Rightarrow> cid_t \<Rightarrow> 'td TransactionContext" where
  "TransactionContext3 tid isolation rid = Init3 tid isolation rid default_members"

definition TransactionContext4 ::
  "size_t \<Rightarrow> IsolationLevelType \<Rightarrow> cid_t \<Rightarrow> cid_t \<Rightarrow> 'td TransactionContext" where
  "TransactionContext4 tid isolation rid cid = Init tid isolation rid cid default_members"

subsection \<open>The read/write set\<close>

definition GetRWType :: "'td TransactionContext \<Rightarrow> ItemPointer \<Rightarrow> RWType" where
  "GetRWType ctx location =
     (case rw_set ctx location of
        None \<Rightarrow> INVALID
      | Some t \<Rightarrow> t)"

definition RecordRead ::
  "ItemPointer \<Rightarrow> 'td TransactionContext \<Rightarrow> 'td error + 'td TransactionContext" where
  "RecordRead location ctx =
     (case GetRWType ctx location of
        INVALID \<Rightarrow> Inr (ctx\<lparr>rw_set := (rw_set ctx)(location \<mapsto> READ)\<rparr>)
      | READ \<Rightarrow> Inr ctx
      | READ_OWN \<Rightarrow> Inr ctx
      | UPDATE \<Rightarrow> Inr ctx
      | INSERT \<Rightarrow> Inr ctx
      | DELETE \<Rightarrow> PL_ASSERT False ctx
      | INS_DEL \<Rightarrow> PL_ASSERT False ctx)"

definition RecordReadOwn ::
  "ItemPointer \<Rightarrow> 'td TransactionContext \<Rightarrow> 'td error + 'td TransactionContext" where
  "RecordReadOwn location ctx =
     (case GetRWType ctx location of
        INVALID \<Rightarrow> Inr (ctx\<lparr>rw_set := (rw_set ctx)(location \<mapsto> READ_OWN)\<rparr>)
      | READ \<Rightarrow> Inr (ctx\<lparr>rw_set := (rw_set ctx)(location \<mapsto> READ_OWN)\<rparr>)
      | READ_OWN \<Rightarrow> Inr ctx
      | UPDATE \<Rightarrow> Inr ctx
      | INSERT \<Rightarrow> Inr ctx
      | DELETE \<Rightarrow> PL_ASSERT False ctx
      | INS_DEL \<Rightarrow> PL_ASSERT False ctx)"

definition RecordUpdate ::
  "ItemPointer \<Rightarrow> 'td TransactionContext \<Rightarrow> 'td error + 'td TransactionContext" where
  "RecordUpdate location ctx =
     (case GetRWType ctx location of
        INVALID \<Rightarrow> Inr (ctx\<lparr>rw_set := (rw_set ctx)(location \<mapsto> UPDATE)\<rparr>)
      | READ \<Rightarrow> Inr (ctx\<lparr>rw_set := (rw_set ctx)(location \<mapsto> UPDATE), is_written := True\<rparr>)
      | READ_OWN \<Rightarrow> Inr (ctx\<lparr>rw_set := (rw_set ctx)(location \<mapsto> UPDATE), is_written := True\<rparr>)
      | UPDATE \<Rightarrow> Inr ctx
      | INSERT \<Rightarrow> Inr ctx
      | DELETE \<Rightarrow> PL_ASSERT False ctx
      | INS_DEL \<Rightarrow> PL_ASSERT False ctx)"

text \<open>Every mode but \<^verbatim>\<open>INVALID\<close> takes the \<^verbatim>\<open>default\<close> label.\<close>

definition RecordInsert ::
  "ItemPointer \<Rightarrow> 'td TransactionContext \<Rightarrow> 'td error + 'td TransactionContext" where
  "RecordInsert location ctx =
     (case GetRWType ctx location of
        INVALID \<Rightarrow>
          Inr (ctx\<lparr>rw_set := (rw_set ctx)(location \<mapsto> INSERT),
                   insert_count := insert_count ctx + 1\<rparr>)
      | _ \<Rightarrow> PL_ASSERT False ctx)"

text \<open>
  \<^verbatim>\<open>RecordDelete\<close> returns a boolean together with the updated object. The statement
  \<^verbatim>\<open>return false\<close> after the assertion is reached only if the assertion lets the call
  go on.
\<close>

definition RecordDelete ::
  "ItemPointer \<Rightarrow> 'td TransactionContext \<Rightarrow> 'td error + (bool \<times> 'td TransactionContext)" where
  "RecordDelete location ctx =
     (case GetRWType ctx location of
        INVALID \<Rightarrow> Inr (False, ctx\<lparr>rw_set := (rw_set ctx)(location \<mapsto> DELETE)\<rparr>)
      | READ \<Rightarrow>
          Inr (False, ctx\<lparr>rw_set := (rw_set ctx)(location \<mapsto> DELETE), is_written := True\<rparr>)
      | READ_OWN \<Rightarrow>
          Inr (False, ctx\<lparr>rw_set := (rw_set ctx)(location \<mapsto> DELETE), is_written := True\<rparr>)
      | UPDATE \<Rightarrow> Inr (False, ctx\<lparr>rw_set := (rw_set ctx)(location \<mapsto> DELETE)\<rparr>)
      | INSERT \<Rightarrow>
          Inr (True, ctx\<lparr>rw_set := (rw_set ctx)(location \<mapsto> INS_DEL),
                         insert_count := insert_count ctx - 1\<rparr>)
      | DELETE \<Rightarrow>
          (case PL_ASSERT False ctx of Inl e \<Rightarrow> Inl e | Inr ctx' \<Rightarrow> Inr (False, ctx'))
      | INS_DEL \<Rightarrow>
          (case PL_ASSERT False ctx of Inl e \<Rightarrow> Inl e | Inr ctx' \<Rightarrow> Inr (False, ctx')))"

subsection \<open>On-commit triggers\<close>

text \<open>
  \<^verbatim>\<open>
  void TransactionContext::AddOnCommitTrigger(trigger::TriggerData &trigger_data) {
    if (on_commit_triggers_ == nullptr) {
      on_commit_triggers_.reset(new trigger::TriggerSet());
    }
    on_commit_triggers_->push_back(trigger_data);
  }
  \<close>
  \<^verbatim>\<open>push_back\<close> writes through the pointer, which is not null at that point.
\<close>

definition AddOnCommitTrigger :: "'td \<Rightarrow> 'td TransactionContext \<Rightarrow> 'td TransactionContext" where
  "AddOnCommitTrigger trigger_data ctx =
     (let c1 = (if on_commit_triggers ctx = None
                then ctx\<lparr>on_commit_triggers := Some []\<rparr> else ctx)
      in c1\<lparr>on_commit_triggers :=
              map_option (\<lambda>ts. ts @ [trigger_data]) (on_commit_triggers c1)\<rparr>)"

text \<open>
  Modelled from the spec: \<^verbatim>\<open>TriggerSet::ExecTriggers\<close> is defined in trigger/trigger.h,
  which is not available. The specification says that the triggers of the list are
  executed in the order of the list. What running a trigger does is outside the
  transaction context; the model records each execution in a log, the oldest first.
\<close>

definition ExecTriggers :: "'td TriggerSet \<Rightarrow> 'td list \<Rightarrow> 'td list" where
  "ExecTriggers ts executed = foldl (\<lambda>log t. log @ [t]) executed ts"

text \<open>
  \<^verbatim>\<open>
  void TransactionContext::ExecOnCommitTriggers() {
    if (on_commit_triggers_ != nullptr) {
      on_commit_triggers_->ExecTriggers();
    }
  }
  \<close>
  The function takes the log of executions so far and returns the new log.
\<close>

definition ExecOnCommitTriggers :: "'td TransactionContext \<Rightarrow> 'td list \<Rightarrow> 'td list" where
  "ExecOnCommitTriggers ctx executed =
     (case on_commit_triggers ctx of
        None \<Rightarrow> executed
      | Some ts \<Rightarrow> ExecTriggers ts executed)"

subsection \<open>Sequences of calls\<close>

datatype rw_call =
  CallRead ItemPointer
| CallReadOwn ItemPointer
| CallUpdate ItemPointer
| CallInsert ItemPointer
| CallDelete ItemPointer

text \<open>The slot a call is about.\<close>

fun call_location :: "rw_call \<Rightarrow> ItemPointer" where
  "call_location (CallRead l) = l"
| "call_location (CallReadOwn l) = l"
| "call_location (CallUpdate l) = l"
| "call_location (CallInsert l) = l"
| "call_location (CallDelete l) = l"

text \<open>One call; the boolean that \<^verbatim>\<open>RecordDelete\<close> returns is dropped.\<close>

fun perform :: "rw_call \<Rightarrow> 'td TransactionContext \<Rightarrow> 'td error + 'td TransactionContext" where
  "perform (CallRead l) ctx = RecordRead l ctx"
| "perform (CallReadOwn l) ctx = RecordReadOwn l ctx"
| "perform (CallUpdate l) ctx = RecordUpdate l ctx"
| "perform (CallInsert l) ctx = RecordInsert l ctx"
| "perform (CallDelete l) ctx =
     (case RecordDelete l ctx of Inl e \<Rightarrow> Inl e | Inr (b, ctx') \<Rightarrow> Inr ctx')"

text \<open>
  A sequence of calls in program order. The first fatal assertion ends the run: the calls
  after it are not made.
\<close>

fun run :: "'td TransactionContext \<Rightarrow> rw_call list \<Rightarrow> 'td error + 'td TransactionContext" where
  "run ctx [] = Inr ctx"
| "run ctx (c # cs) = (case perform c ctx of Inl e \<Rightarrow> Inl e | Inr ctx' \<Rightarrow> run ctx' cs)"

text \<open>The object at the end of a run, completed or aborted.\<close>

fun state_of :: "'td error + 'td TransactionContext \<Rightarrow> 'td TransactionContext" where
  "state_of (Inl (AssertionFailed ctx)) = ctx"
| "state_of (Inr ctx) = ctx"

text \<open>
  The states the object goes through: the state before the first call and the state after
  each completed call.
\<close>

fun history :: "'td TransactionContext \<Rightarrow> rw_call list \<Rightarrow> 'td TransactionContext list" where
  "history ctx [] = [ctx]"
| "history ctx (c # cs) =
     ctx # (case perform c ctx of Inl e \<Rightarrow> [] | Inr ctx' \<Rightarrow> history ctx' cs)"

text \<open>
  Whether some call of the sequence was a \<^verbatim>\<open>RecordDelete\<close> on a slot whose mode was
  \<^verbatim>\<open>INSERT\<close> (the case label that stores \<^verbatim>\<open>INS_DEL\<close>).
\<close>

fun collapse_taken :: "'td TransactionContext \<Rightarrow> rw_call list \<Rightarrow> bool" where
  "collapse_taken ctx [] = False"
| "collapse_taken ctx (c # cs) =
     ((case c of CallDelete l \<Rightarrow> GetRWType ctx l = INSERT | _ \<Rightarrow> False) \<or>
      (case perform c ctx of Inl e \<Rightarrow> False | Inr ctx' \<Rightarrow> collapse_taken ctx' cs))"

text \<open>The slots whose current mode is \<^verbatim>\<open>INSERT\<close>.\<close>

definition insert_slots :: "'td TransactionContext \<Rightarrow> ItemPointer set" where
  "insert_slots ctx = {s. rw_set ctx s = Some INSERT}"


text \<open>
  Whether the slot had mode \<^verbatim>\<open>READ\<close> or \<^verbatim>\<open>READ_OWN\<close> at some point of the call history.
\<close>

definition was_read :: "'td TransactionContext \<Rightarrow> rw_call list \<Rightarrow> ItemPointer \<Rightarrow> bool" where
  "was_read ctx cs s =
     list_ex (\<lambda>st. GetRWType st s = READ \<or> GetRWType st s = READ_OWN) (history ctx cs)"

text \<open>The counter agrees, as a 64-bit value, with the number of \<^verbatim>\<open>INSERT\<close> slots.\<close>

definition insert_count_ok :: "'td TransactionContext \<Rightarrow> bool" where
  "insert_count_ok ctx =
     (finite (insert_slots ctx) \<and> insert_count ctx = of_nat (card (insert_slots ctx)))"

section \<open>Properties\<close>

subsection \<open>Auxiliary facts\<close>

lemmas Record_defs =
  RecordRead_def RecordReadOwn_def RecordUpdate_def RecordInsert_def RecordDelete_def
  PL_ASSERT_def

lemma fresh3 [simp]:
  "rw_set (TransactionContext3 tid lvl rid) = Map.empty"
  "insert_count (TransactionContext3 tid lvl rid) = 0"
  "is_written (TransactionContext3 tid lvl rid) = False"
  "on_commit_triggers (TransactionContext3 tid lvl rid) = None"
  by (simp_all add: TransactionContext3_def Init3_def Init_def default_members_def)

lemma fresh4 [simp]:
  "rw_set (TransactionContext4 tid lvl rid cid) = Map.empty"
  "insert_count (TransactionContext4 tid lvl rid cid) = 0"
  "is_written (TransactionContext4 tid lvl rid cid) = False"
  "on_commit_triggers (TransactionContext4 tid lvl rid cid) = None"
  by (simp_all add: TransactionContext4_def Init_def default_members_def)

lemma perform_sticky: "perform c st = Inr st' \<Longrightarrow> is_written st \<Longrightarrow> is_written st'"
  by (cases c; cases "GetRWType st (call_location c)") (auto simp: Record_defs)

lemma GetRWType_upd [simp]:
  "GetRWType (ctx\<lparr>rw_set := (rw_set ctx)(l \<mapsto> t)\<rparr>) s = (if s = l then t else GetRWType ctx s)"
  "GetRWType (ctx\<lparr>rw_set := (rw_set ctx)(l \<mapsto> t), is_written := b\<rparr>) s =
     (if s = l then t else GetRWType ctx s)"
  "GetRWType (ctx\<lparr>rw_set := (rw_set ctx)(l \<mapsto> t), insert_count := n\<rparr>) s =
     (if s = l then t else GetRWType ctx s)"
  by (simp_all add: GetRWType_def)

lemma perform_other:
  "perform c st = Inr st' \<Longrightarrow> s \<noteq> call_location c \<Longrightarrow> GetRWType st' s = GetRWType st s"
  by (cases c; cases "GetRWType st (call_location c)") (auto simp: Record_defs)

text \<open>The transitions of one slot under a completing call on it.\<close>

lemma perform_same:
  "perform c st = Inr st' \<Longrightarrow>
   (case GetRWType st (call_location c) of
      INVALID \<Rightarrow> GetRWType st' (call_location c) \<noteq> INVALID \<and> (is_written st' = is_written st)
    | READ \<Rightarrow> (GetRWType st' (call_location c) \<in> {READ, READ_OWN} \<and> is_written st' = is_written st)
            \<or> (GetRWType st' (call_location c) \<in> {UPDATE, DELETE} \<and> is_written st')
    | READ_OWN \<Rightarrow> (GetRWType st' (call_location c) = READ_OWN \<and> is_written st' = is_written st)
            \<or> (GetRWType st' (call_location c) \<in> {UPDATE, DELETE} \<and> is_written st')
    | UPDATE \<Rightarrow> GetRWType st' (call_location c) \<in> {UPDATE, DELETE} \<and> is_written st' = is_written st
    | INSERT \<Rightarrow> GetRWType st' (call_location c) \<in> {INSERT, INS_DEL} \<and> is_written st' = is_written st
    | DELETE \<Rightarrow> False
    | INS_DEL \<Rightarrow> False)"
  by (cases c; cases "GetRWType st (call_location c)") (auto simp: Record_defs)

lemma run_append:
  "run ctx (cs @ ds) = (case run ctx cs of Inl e \<Rightarrow> Inl e | Inr st \<Rightarrow> run st ds)"
  by (induction cs arbitrary: ctx) (auto split: sum.splits)

lemma history_snoc:
  "run ctx cs = Inr st \<Longrightarrow>
   history ctx (cs @ [c]) = history ctx cs @ (case perform c st of Inl e \<Rightarrow> [] | Inr st' \<Rightarrow> [st'])"
  by (induction cs arbitrary: ctx) (auto split: sum.splits)

lemma last_history: "run ctx cs = Inr st \<Longrightarrow> st \<in> set (history ctx cs)"
  by (induction cs arbitrary: ctx) (auto split: sum.splits)

lemma was_read_snoc:
  "run ctx cs = Inr st \<Longrightarrow> perform c st = Inr st' \<Longrightarrow>
   was_read ctx (cs @ [c]) s = (was_read ctx cs s \<or> GetRWType st' s = READ \<or> GetRWType st' s = READ_OWN)"
  by (simp add: was_read_def history_snoc list_ex_iff) blast

lemma was_read_last:
  "run ctx cs = Inr st \<Longrightarrow> GetRWType st s = READ \<or> GetRWType st s = READ_OWN \<Longrightarrow> was_read ctx cs s"
  using last_history by (auto simp: was_read_def list_ex_iff)


lemma perform_mode:
  assumes "perform c st = Inr st'"
  shows "(GetRWType st s \<in> {UPDATE, DELETE, INS_DEL} \<longrightarrow> GetRWType st' s \<in> {UPDATE, DELETE, INS_DEL})"
    and "(GetRWType st s \<in> {READ, READ_OWN, UPDATE, DELETE}
            \<longrightarrow> GetRWType st' s \<in> {READ, READ_OWN, UPDATE, DELETE})"
    and "(GetRWType st s \<in> {READ, READ_OWN} \<longrightarrow> GetRWType st' s \<in> {READ, READ_OWN} \<or> is_written st')"
proof -
  show "(GetRWType st s \<in> {UPDATE, DELETE, INS_DEL} \<longrightarrow> GetRWType st' s \<in> {UPDATE, DELETE, INS_DEL})"
  proof (cases "s = call_location c")
    case True
    with perform_same [OF assms] show ?thesis by (auto split: RWType.splits)
  next
    case False
    with perform_other [OF assms] show ?thesis by simp
  qed
  show "(GetRWType st s \<in> {READ, READ_OWN, UPDATE, DELETE}
            \<longrightarrow> GetRWType st' s \<in> {READ, READ_OWN, UPDATE, DELETE})"
  proof (cases "s = call_location c")
    case True
    with perform_same [OF assms] show ?thesis by (auto split: RWType.splits)
  next
    case False
    with perform_other [OF assms] show ?thesis by simp
  qed
  show "(GetRWType st s \<in> {READ, READ_OWN} \<longrightarrow> GetRWType st' s \<in> {READ, READ_OWN} \<or> is_written st')"
  proof (cases "s = call_location c")
    case True
    with perform_same [OF assms] show ?thesis by (auto split: RWType.splits)
  next
    case False
    with perform_other [OF assms] show ?thesis by simp
  qed
qed

lemma perform_sets_written:
  assumes "perform c st = Inr st'" and "is_written st'" and "\<not> is_written st"
  shows "GetRWType st (call_location c) \<in> {READ, READ_OWN}
       \<and> GetRWType st' (call_location c) \<in> {UPDATE, DELETE}"
  using perform_same [OF assms(1)] assms(2,3) by (auto split: RWType.splits)

lemma written_invariant:
  assumes empty: "rw_set ctx0 = Map.empty" and clean: "\<not> is_written ctx0"
  shows "run ctx0 cs = Inr st \<Longrightarrow>
     (is_written st \<longleftrightarrow> (\<exists>s. GetRWType st s \<in> {UPDATE, DELETE, INS_DEL} \<and> was_read ctx0 cs s))
   \<and> (\<forall>s. was_read ctx0 cs s \<longrightarrow> GetRWType st s \<in> {READ, READ_OWN, UPDATE, DELETE})"
proof (induction cs arbitrary: st rule: rev_induct)
  case Nil
  then have "st = ctx0" by simp
  with empty clean show ?case by (simp add: was_read_def GetRWType_def)
next
  case (snoc c cs)
  from snoc.prems obtain st0 where run0: "run ctx0 cs = Inr st0" and step: "perform c st0 = Inr st"
    by (auto simp: run_append split: sum.splits)
  note IH = snoc.IH [OF run0]
  note wr = was_read_snoc [OF run0 step]
  have B: "\<forall>s. was_read ctx0 (cs @ [c]) s \<longrightarrow> GetRWType st s \<in> {READ, READ_OWN, UPDATE, DELETE}"
  proof (intro allI impI)
    fix s
    assume "was_read ctx0 (cs @ [c]) s"
    then consider "was_read ctx0 cs s" | "GetRWType st s = READ \<or> GetRWType st s = READ_OWN"
      unfolding wr by blast
    then show "GetRWType st s \<in> {READ, READ_OWN, UPDATE, DELETE}"
    proof cases
      case 1
      with IH have "GetRWType st0 s \<in> {READ, READ_OWN, UPDATE, DELETE}" by blast
      with perform_mode(2) [OF step, of s] show ?thesis by blast
    next
      case 2
      then show ?thesis by auto
    qed
  qed
  have A1: "\<exists>s. GetRWType st s \<in> {UPDATE, DELETE, INS_DEL} \<and> was_read ctx0 (cs @ [c]) s"
    if w: "is_written st"
  proof (cases "is_written st0")
    case True
    with IH obtain s where "GetRWType st0 s \<in> {UPDATE, DELETE, INS_DEL}" "was_read ctx0 cs s"
      by blast
    with perform_mode(1) [OF step, of s] have "GetRWType st s \<in> {UPDATE, DELETE, INS_DEL}" by blast
    with \<open>was_read ctx0 cs s\<close> show ?thesis unfolding wr by blast
  next
    case False
    from perform_sets_written [OF step w False]
    have m: "GetRWType st0 (call_location c) \<in> {READ, READ_OWN}"
      and m': "GetRWType st (call_location c) \<in> {UPDATE, DELETE}" by blast+
    from m have "was_read ctx0 cs (call_location c)"
      by (intro was_read_last [OF run0]) auto
    with m' show ?thesis unfolding wr by blast
  qed
  have A2: "is_written st"
    if "GetRWType st s \<in> {UPDATE, DELETE, INS_DEL}" "was_read ctx0 (cs @ [c]) s" for s
  proof -
    from that have r: "was_read ctx0 cs s" unfolding wr by auto
    with IH have "GetRWType st0 s \<in> {READ, READ_OWN, UPDATE, DELETE}" by blast
    then consider "GetRWType st0 s \<in> {UPDATE, DELETE}" | "GetRWType st0 s \<in> {READ, READ_OWN}"
      by auto
    then show ?thesis
    proof cases
      case 1
      with IH r have "is_written st0" by auto
      with perform_sticky [OF step] show ?thesis .
    next
      case 2
      with perform_mode(3) [OF step, of s] that(1) show ?thesis by auto
    qed
  qed
  from A1 A2 B show ?case by blast
qed

subsection \<open>The insert counter\<close>

lemma slots_same:
  "t \<noteq> INSERT \<Longrightarrow> GetRWType ctx l \<noteq> INSERT \<Longrightarrow> rw_set ctx' = (rw_set ctx)(l \<mapsto> t)
   \<Longrightarrow> insert_slots ctx' = insert_slots ctx"
  by (auto simp: insert_slots_def GetRWType_def)

lemma slots_add:
  "GetRWType ctx l \<noteq> INSERT \<Longrightarrow> rw_set ctx' = (rw_set ctx)(l \<mapsto> INSERT)
   \<Longrightarrow> insert_slots ctx' = insert l (insert_slots ctx) \<and> l \<notin> insert_slots ctx"
  by (auto simp: insert_slots_def GetRWType_def)

lemma slots_del:
  "GetRWType ctx l = INSERT \<Longrightarrow> t \<noteq> INSERT \<Longrightarrow> rw_set ctx' = (rw_set ctx)(l \<mapsto> t)
   \<Longrightarrow> insert_slots ctx' = insert_slots ctx - {l} \<and> l \<in> insert_slots ctx"
  by (auto simp: insert_slots_def GetRWType_def split: option.splits)

lemma count_ok_same:
  "insert_count_ok ctx \<Longrightarrow> insert_slots ctx' = insert_slots ctx
   \<Longrightarrow> insert_count ctx' = insert_count ctx \<Longrightarrow> insert_count_ok ctx'"
  by (simp add: insert_count_ok_def)

lemma count_ok_add:
  "insert_count_ok ctx \<Longrightarrow> insert_slots ctx' = insert l (insert_slots ctx) \<and> l \<notin> insert_slots ctx 
   \<Longrightarrow> insert_count ctx' = insert_count ctx + 1 \<Longrightarrow> insert_count_ok ctx'"
  by (simp add: insert_count_ok_def)

lemma count_ok_del:
  "insert_count_ok ctx \<Longrightarrow> insert_slots ctx' = insert_slots ctx - {l} \<and> l \<in> insert_slots ctx 
   \<Longrightarrow> insert_count ctx' = insert_count ctx - 1 \<Longrightarrow> insert_count_ok ctx'"
proof -
  assume ok: "insert_count_ok ctx"
    and slots: "insert_slots ctx' = insert_slots ctx - {l} \<and> l \<in> insert_slots ctx"
    and cnt: "insert_count ctx' = insert_count ctx - 1"
  from ok have fin: "finite (insert_slots ctx)"
    and eq: "insert_count ctx = of_nat (card (insert_slots ctx))"
    by (simp_all add: insert_count_ok_def)
  from slots have mem: "l \<in> insert_slots ctx"
    and diff: "insert_slots ctx' = insert_slots ctx - {l}"
    by simp_all
  from card_Suc_Diff1 [OF fin mem]
  have "card (insert_slots ctx) = Suc (card (insert_slots ctx'))"
    unfolding diff by (rule sym)
  with eq cnt have "insert_count ctx' = of_nat (card (insert_slots ctx'))"
    by simp
  moreover from fin slots have "finite (insert_slots ctx')"
    by simp
  ultimately show ?thesis
    by (simp add: insert_count_ok_def)
qed

lemma RecordRead_count_ok: "insert_count_ok ctx \<Longrightarrow> RecordRead l ctx = Inr ctx' \<Longrightarrow> insert_count_ok ctx'"
  unfolding RecordRead_def PL_ASSERT_def
  by (cases "GetRWType ctx l") (auto intro: count_ok_same [OF _ slots_same [where l = l]])

lemma RecordReadOwn_count_ok:
  "insert_count_ok ctx \<Longrightarrow> RecordReadOwn l ctx = Inr ctx' \<Longrightarrow> insert_count_ok ctx'"
  unfolding RecordReadOwn_def PL_ASSERT_def
  by (cases "GetRWType ctx l") (auto intro: count_ok_same [OF _ slots_same [where l = l]])

lemma RecordUpdate_count_ok:
  "insert_count_ok ctx \<Longrightarrow> RecordUpdate l ctx = Inr ctx' \<Longrightarrow> insert_count_ok ctx'"
  unfolding RecordUpdate_def PL_ASSERT_def
  by (cases "GetRWType ctx l") (auto intro: count_ok_same [OF _ slots_same [where l = l]])

lemma RecordInsert_count_ok:
  "insert_count_ok ctx \<Longrightarrow> RecordInsert l ctx = Inr ctx' \<Longrightarrow> insert_count_ok ctx'"
  unfolding RecordInsert_def PL_ASSERT_def
  by (cases "GetRWType ctx l") (auto intro: count_ok_add [OF _ slots_add [where l = l]])

lemma RecordDelete_count_ok:
  "insert_count_ok ctx \<Longrightarrow> RecordDelete l ctx = Inr (b, ctx') \<Longrightarrow> insert_count_ok ctx'"
  unfolding RecordDelete_def PL_ASSERT_def
  by (cases "GetRWType ctx l")
     (auto intro: count_ok_same [OF _ slots_same [where l = l]]
        count_ok_del [OF _ slots_del [where l = l]])

lemma perform_count_ok: "insert_count_ok ctx \<Longrightarrow> perform c ctx = Inr ctx' \<Longrightarrow> insert_count_ok ctx'"
  by (cases c)
     (auto split: sum.splits dest: RecordRead_count_ok RecordReadOwn_count_ok
        RecordUpdate_count_ok RecordInsert_count_ok RecordDelete_count_ok)

lemma run_count_ok: "insert_count_ok ctx \<Longrightarrow> run ctx cs = Inr ctx' \<Longrightarrow> insert_count_ok ctx'"
  by (induction cs arbitrary: ctx) (auto split: sum.splits dest: perform_count_ok)

lemma empty_count_ok: "rw_set ctx = Map.empty \<Longrightarrow> insert_count ctx = 0 \<Longrightarrow> insert_count_ok ctx"
  by (simp add: insert_count_ok_def insert_slots_def)

lemma unat_word64_of_nat: "n < 2 ^ 63 \<Longrightarrow> unat (of_nat n :: 64 word) = n"
  by (simp add: unat_of_nat)

lemma sint_word64_of_nat:
  assumes "n < 2 ^ 63"
  shows "sint (of_nat n :: 64 word) = int n"
proof -
  have "sint (of_nat n :: 64 word) = signed_take_bit 63 (int n)"
    by (simp add: signed_of_nat)
  also have "\<dots> = int n"
    using assms by (simp add: signed_take_bit_int_eq_self_iff)
  finally show ?thesis .
qed

subsection \<open>Fresh contexts, terminal modes, triggers, stored modes\<close>

lemma GetRWType_fresh [simp]:
  "GetRWType (TransactionContext3 tid lvl rid) l = INVALID"
  "GetRWType (TransactionContext4 tid lvl rid cid) l = INVALID"
  by (simp_all add: GetRWType_def)

lemma perform_terminal:
  assumes "perform c st = Inr st'" and "GetRWType st s = DELETE \<or> GetRWType st s = INS_DEL"
  shows "GetRWType st' s = GetRWType st s"
proof (cases "s = call_location c")
  case True
  with perform_same [OF assms(1)] assms(2) show ?thesis by auto
next
  case False
  with perform_other [OF assms(1)] show ?thesis by simp
qed

lemma run_terminal:
  "run st cs = Inr st' \<Longrightarrow> GetRWType st s = DELETE \<or> GetRWType st s = INS_DEL
   \<Longrightarrow> GetRWType st' s = GetRWType st s"
proof (induction cs arbitrary: st)
  case Nil
  then show ?case by simp
next
  case (Cons c cs)
  from Cons.prems(1) obtain st1 where step: "perform c st = Inr st1" and rest: "run st1 cs = Inr st'"
    by (auto split: sum.splits)
  from perform_terminal [OF step Cons.prems(2)] have eq: "GetRWType st1 s = GetRWType st s" .
  with Cons.prems(2) have "GetRWType st1 s = DELETE \<or> GetRWType st1 s = INS_DEL" by simp
  from Cons.IH [OF rest this] eq show ?case by simp
qed

lemma ExecTriggers_append: "ExecTriggers ts executed = executed @ ts"
  unfolding ExecTriggers_def by (induction ts arbitrary: executed) simp_all

lemma AddOnCommitTrigger_triggers:
  "on_commit_triggers (AddOnCommitTrigger t ctx) =
     Some ((case on_commit_triggers ctx of None \<Rightarrow> [] | Some old \<Rightarrow> old) @ [t])"
  by (simp add: AddOnCommitTrigger_def split: option.splits)

lemma fold_AddOnCommitTrigger_triggers:
  "ts \<noteq> [] \<Longrightarrow> on_commit_triggers (fold AddOnCommitTrigger ts ctx) =
     Some ((case on_commit_triggers ctx of None \<Rightarrow> [] | Some old \<Rightarrow> old) @ ts)"
proof (induction ts arbitrary: ctx)
  case Nil
  then show ?case by simp
next
  case (Cons t ts)
  show ?case
  proof (cases "ts = []")
    case True
    then show ?thesis by (simp add: AddOnCommitTrigger_triggers)
  next
    case False
    from Cons.IH [OF False, of "AddOnCommitTrigger t ctx"] show ?thesis
      by (simp add: AddOnCommitTrigger_triggers)
  qed
qed

lemma perform_no_INVALID:
  assumes "perform c st = Inr st'" and "\<forall>l. rw_set st l \<noteq> Some INVALID"
  shows "\<forall>l. rw_set st' l \<noteq> Some INVALID"
  using assms
  by (cases c; cases "GetRWType st (call_location c)")
     (auto simp: Record_defs split: if_splits)

lemma perform_abort_state: "perform c st = Inl e \<Longrightarrow> e = AssertionFailed st"
  by (cases c; cases "GetRWType st (call_location c)") (auto simp: Record_defs)

lemma run_no_INVALID:
  "\<forall>l. rw_set st l \<noteq> Some INVALID \<Longrightarrow> \<forall>l. rw_set (state_of (run st cs)) l \<noteq> Some INVALID"
proof (induction cs arbitrary: st)
  case Nil
  then show ?case by simp
next
  case (Cons c cs)
  show ?case
  proof (cases "perform c st")
    case (Inl e)
    with perform_abort_state [OF Inl] Cons.prems show ?thesis by simp
  next
    case (Inr st1)
    from Cons.IH [OF perform_no_INVALID [OF Inr Cons.prems]] Inr show ?thesis by simp
  qed
qed

section \<open>The claims\<close>

text \<open>
  Claim C1. On a freshly constructed context, after any sequence of \<^verbatim>\<open>RecordRead\<close>,
  \<^verbatim>\<open>RecordReadOwn\<close>, \<^verbatim>\<open>RecordUpdate\<close>, \<^verbatim>\<open>RecordInsert\<close> and \<^verbatim>\<open>RecordDelete\<close> calls
  that all complete, \<^verbatim>\<open>insert_count_\<close> equals the number of slots whose current mode is
  \<^verbatim>\<open>INSERT\<close>. The counter is a 64-bit value and equals the number as such; read as a
  signed or unsigned integer it is the number itself as long as the number is below
  \<open>2 ^ 63\<close>.
\<close>

theorem insert_count_counts_insert_slots:
  assumes fresh: "ctx0 = TransactionContext3 tid lvl rid \<or> ctx0 = TransactionContext4 tid lvl rid cid"
      and run: "run ctx0 calls = Inr ctx"
  shows "insert_count ctx = of_nat (card (insert_slots ctx)) \<and>
         (card (insert_slots ctx) < 2 ^ 63 \<longrightarrow>
            sint (insert_count ctx) = int (card (insert_slots ctx)) \<and>
            unat (insert_count ctx) = card (insert_slots ctx))"
proof -
  from fresh have "insert_count_ok ctx0"
    by (auto intro: empty_count_ok)
  from run_count_ok [OF this run]
  have eq: "insert_count ctx = of_nat (card (insert_slots ctx))"
    by (simp add: insert_count_ok_def)
  show ?thesis
    unfolding eq by (intro conjI impI refl sint_word64_of_nat unat_word64_of_nat)
qed

theorem insert_count_counts_insert_slots_witness:
  "run (TransactionContext3 7 SNAPSHOT 5 :: nat TransactionContext)
     [CallInsert (ItemPointer 2 3), CallInsert (ItemPointer 2 4), CallRead (ItemPointer 1 0),
      CallDelete (ItemPointer 2 3)]
   = Inr (state_of (run (TransactionContext3 7 SNAPSHOT 5)
     [CallInsert (ItemPointer 2 3), CallInsert (ItemPointer 2 4), CallRead (ItemPointer 1 0),
      CallDelete (ItemPointer 2 3)]))
  \<and> insert_slots (state_of (run (TransactionContext3 7 SNAPSHOT 5 :: nat TransactionContext)
     [CallInsert (ItemPointer 2 3), CallInsert (ItemPointer 2 4), CallRead (ItemPointer 1 0),
      CallDelete (ItemPointer 2 3)])) = {ItemPointer 2 4}
  \<and> sint (insert_count (state_of (run (TransactionContext3 7 SNAPSHOT 5 :: nat TransactionContext)
     [CallInsert (ItemPointer 2 3), CallInsert (ItemPointer 2 4), CallRead (ItemPointer 1 0),
      CallDelete (ItemPointer 2 3)]))) = 1"
proof -
  let ?c0 = "TransactionContext3 7 SNAPSHOT 5 :: nat TransactionContext"
  let ?cs = "[CallInsert (ItemPointer 2 3), CallInsert (ItemPointer 2 4), CallRead (ItemPointer 1 0),
      CallDelete (ItemPointer 2 3)]"
  have r: "run ?c0 ?cs = Inr (state_of (run ?c0 ?cs))"
    by (simp add: Record_defs GetRWType_def)
  have s: "insert_slots (state_of (run ?c0 ?cs)) = {ItemPointer 2 4}"
    by (auto simp: Record_defs GetRWType_def insert_slots_def split: if_splits)
  from insert_count_counts_insert_slots [OF disjI1 [OF refl] r] s
  show ?thesis using r by simp
qed

text \<open>
  Claim C2. A completing \<^verbatim>\<open>RecordDelete(s)\<close> returns true exactly when the mode of \<open>s\<close>
  before the call was \<^verbatim>\<open>INSERT\<close>. From \<^verbatim>\<open>INSERT\<close> the call completes and returns true; from
  \<^verbatim>\<open>INVALID\<close>, \<^verbatim>\<open>READ\<close>, \<^verbatim>\<open>READ_OWN\<close> and \<^verbatim>\<open>UPDATE\<close> it completes and returns false; from
  \<^verbatim>\<open>DELETE\<close> and \<^verbatim>\<open>INS_DEL\<close> it does not complete.
\<close>

theorem RecordDelete_true_iff_was_INSERT:
  "(\<forall>b ctx'. RecordDelete s ctx = Inr (b, ctx') \<longrightarrow> (b \<longleftrightarrow> GetRWType ctx s = INSERT)) \<and>
   (GetRWType ctx s = INSERT \<longrightarrow> (\<exists>ctx'. RecordDelete s ctx = Inr (True, ctx'))) \<and>
   (GetRWType ctx s \<in> {INVALID, READ, READ_OWN, UPDATE} \<longrightarrow>
      (\<exists>ctx'. RecordDelete s ctx = Inr (False, ctx'))) \<and>
   (GetRWType ctx s \<in> {DELETE, INS_DEL} \<longrightarrow> RecordDelete s ctx = Inl (AssertionFailed ctx))"
  by (cases "GetRWType ctx s") (simp_all add: RecordDelete_def PL_ASSERT_def)

theorem RecordDelete_true_iff_was_INSERT_witness:
  "RecordDelete (ItemPointer 2 3)
     (state_of (RecordInsert (ItemPointer 2 3) (TransactionContext3 1 SERIALIZABLE 0 :: nat TransactionContext)))
   = Inr (True, state_of (run (TransactionContext3 1 SERIALIZABLE 0)
       [CallInsert (ItemPointer 2 3), CallDelete (ItemPointer 2 3)]))
   \<and> GetRWType (state_of (RecordInsert (ItemPointer 2 3) (TransactionContext3 1 SERIALIZABLE 0 :: nat TransactionContext)))
       (ItemPointer 2 3) = INSERT
   \<and> RecordDelete (ItemPointer 3 0) (TransactionContext3 1 SERIALIZABLE 0 :: nat TransactionContext)
   = Inr (False, state_of (run (TransactionContext3 1 SERIALIZABLE 0) [CallDelete (ItemPointer 3 0)]))
   \<and> GetRWType (TransactionContext3 1 SERIALIZABLE 0 :: nat TransactionContext) (ItemPointer 3 0) = INVALID"
  using RecordDelete_true_iff_was_INSERT [of "ItemPointer 2 3"
      "state_of (RecordInsert (ItemPointer 2 3) (TransactionContext3 1 SERIALIZABLE 0 :: nat TransactionContext))"]
    RecordDelete_true_iff_was_INSERT [of "ItemPointer 3 0"
      "TransactionContext3 1 SERIALIZABLE 0 :: nat TransactionContext"]
  by (simp add: RecordInsert_def RecordDelete_def GetRWType_def)

text \<open>
  Claim C3, amended. After a sequence of completing \<^verbatim>\<open>Record*\<close> calls on a fresh context,
  \<^verbatim>\<open>is_written_\<close> holds exactly when some slot has a current mode among \<^verbatim>\<open>UPDATE\<close>,
  \<^verbatim>\<open>DELETE\<close>, \<^verbatim>\<open>INS_DEL\<close> and had mode \<^verbatim>\<open>READ\<close> or \<^verbatim>\<open>READ_OWN\<close> earlier in the call history.
  Deleting an own insert (\<^verbatim>\<open>INSERT\<close> to \<^verbatim>\<open>INS_DEL\<close>) does not set the flag, which is where the
  claim as written fails: see the counterexample after the theorem.
\<close>

theorem is_written_iff_promoted_read:
  assumes fresh: "ctx0 = TransactionContext3 tid lvl rid \<or> ctx0 = TransactionContext4 tid lvl rid cid"
      and run: "run ctx0 calls = Inr ctx"
  shows "is_written ctx \<longleftrightarrow>
           (\<exists>s. GetRWType ctx s \<in> {UPDATE, DELETE, INS_DEL} \<and> was_read ctx0 calls s)"
proof -
  from fresh have "rw_set ctx0 = Map.empty" and "\<not> is_written ctx0" by auto
  from written_invariant [OF this run] show ?thesis by blast
qed

theorem is_written_iff_promoted_read_witness:
  "run (TransactionContext3 1 SERIALIZABLE 0 :: nat TransactionContext)
      [CallRead (ItemPointer 1 0), CallInsert (ItemPointer 2 3), CallUpdate (ItemPointer 1 0)]
   = Inr (state_of (run (TransactionContext3 1 SERIALIZABLE 0)
      [CallRead (ItemPointer 1 0), CallInsert (ItemPointer 2 3), CallUpdate (ItemPointer 1 0)])) \<and>
   is_written (state_of (run (TransactionContext3 1 SERIALIZABLE 0 :: nat TransactionContext)
      [CallRead (ItemPointer 1 0), CallInsert (ItemPointer 2 3), CallUpdate (ItemPointer 1 0)])) \<and>
   (\<exists>s. GetRWType (state_of (run (TransactionContext3 1 SERIALIZABLE 0 :: nat TransactionContext)
      [CallRead (ItemPointer 1 0), CallInsert (ItemPointer 2 3), CallUpdate (ItemPointer 1 0)])) s
        \<in> {UPDATE, DELETE, INS_DEL} \<and>
      was_read (TransactionContext3 1 SERIALIZABLE 0 :: nat TransactionContext)
      [CallRead (ItemPointer 1 0), CallInsert (ItemPointer 2 3), CallUpdate (ItemPointer 1 0)] s)"
proof -
  let ?c0 = "TransactionContext3 1 SERIALIZABLE 0 :: nat TransactionContext"
  let ?cs = "[CallRead (ItemPointer 1 0), CallInsert (ItemPointer 2 3), CallUpdate (ItemPointer 1 0)]"
  have r: "run ?c0 ?cs = Inr (state_of (run ?c0 ?cs))"
    by (simp add: Record_defs GetRWType_def)
  have w: "is_written (state_of (run ?c0 ?cs))"
    by (simp add: Record_defs GetRWType_def)
  from is_written_iff_promoted_read [OF disjI1 [OF refl] r] w r show ?thesis by simp
qed

theorem is_written_collapse_counterexample:
  "\<not> isl (run (TransactionContext3 1 SERIALIZABLE 0 :: nat TransactionContext)
        [CallInsert (ItemPointer 2 3), CallDelete (ItemPointer 2 3)]) \<and>
   collapse_taken (TransactionContext3 1 SERIALIZABLE 0 :: nat TransactionContext)
        [CallInsert (ItemPointer 2 3), CallDelete (ItemPointer 2 3)] \<and>
   \<not> is_written (state_of (run (TransactionContext3 1 SERIALIZABLE 0 :: nat TransactionContext)
        [CallInsert (ItemPointer 2 3), CallDelete (ItemPointer 2 3)]))"
  by (simp add: Record_defs GetRWType_def)

text \<open>
  Claim C4, amended. On a slot whose current mode is \<^verbatim>\<open>INSERT\<close>, \<^verbatim>\<open>RecordInsert\<close> takes the
  \<^verbatim>\<open>default\<close> label and fails with a fatal assertion; the object is as it was, so the mode
  stays \<^verbatim>\<open>INSERT\<close> and \<^verbatim>\<open>insert_count_\<close> is unchanged. The claim as written says that the call
  completes: see the counterexample after the theorem.
\<close>

theorem RecordInsert_on_INSERT_aborts:
  "GetRWType ctx s = INSERT \<Longrightarrow> RecordInsert s ctx = Inl (AssertionFailed ctx)"
  by (simp add: RecordInsert_def PL_ASSERT_def)

theorem RecordInsert_on_INSERT_aborts_witness:
  "GetRWType (state_of (RecordInsert (ItemPointer 2 3) (TransactionContext3 1 SERIALIZABLE 0 :: nat TransactionContext)))
       (ItemPointer 2 3) = INSERT
   \<and> RecordInsert (ItemPointer 2 3)
       (state_of (RecordInsert (ItemPointer 2 3) (TransactionContext3 1 SERIALIZABLE 0 :: nat TransactionContext)))
     = Inl (AssertionFailed
       (state_of (RecordInsert (ItemPointer 2 3) (TransactionContext3 1 SERIALIZABLE 0 :: nat TransactionContext))))"
proof -
  have m: "GetRWType (state_of (RecordInsert (ItemPointer 2 3)
      (TransactionContext3 1 SERIALIZABLE 0 :: nat TransactionContext))) (ItemPointer 2 3) = INSERT"
    by (simp add: RecordInsert_def GetRWType_def)
  from RecordInsert_on_INSERT_aborts [OF m] m show ?thesis by simp
qed

theorem RecordInsert_on_INSERT_counterexample:
  "GetRWType (state_of (RecordInsert (ItemPointer 2 3) (TransactionContext3 1 SERIALIZABLE 0 :: nat TransactionContext)))
       (ItemPointer 2 3) = INSERT
   \<and> isl (RecordInsert (ItemPointer 2 3)
       (state_of (RecordInsert (ItemPointer 2 3) (TransactionContext3 1 SERIALIZABLE 0 :: nat TransactionContext))))"
  by (simp add: RecordInsert_def PL_ASSERT_def GetRWType_def)

text \<open>
  Claim C5. Once the mode of a slot is \<^verbatim>\<open>DELETE\<close> or \<^verbatim>\<open>INS_DEL\<close>, it stays so through every
  later completing call, and each of \<^verbatim>\<open>RecordRead\<close>, \<^verbatim>\<open>RecordReadOwn\<close>, \<^verbatim>\<open>RecordUpdate\<close>,
  \<^verbatim>\<open>RecordInsert\<close> and \<^verbatim>\<open>RecordDelete\<close> on that slot fails with a fatal assertion that leaves
  the object (so \<^verbatim>\<open>rw_set_\<close>, \<^verbatim>\<open>insert_count_\<close> and \<^verbatim>\<open>is_written_\<close>) as it was.
\<close>

theorem terminal_modes_abort:
  assumes terminal: "GetRWType ctx s = DELETE \<or> GetRWType ctx s = INS_DEL"
      and later: "run ctx calls = Inr ctx'"
  shows "GetRWType ctx' s = GetRWType ctx s \<and>
         RecordRead s ctx' = Inl (AssertionFailed ctx') \<and>
         RecordReadOwn s ctx' = Inl (AssertionFailed ctx') \<and>
         RecordUpdate s ctx' = Inl (AssertionFailed ctx') \<and>
         RecordInsert s ctx' = Inl (AssertionFailed ctx') \<and>
         RecordDelete s ctx' = Inl (AssertionFailed ctx')"
proof -
  from run_terminal [OF later terminal] have eq: "GetRWType ctx' s = GetRWType ctx s" .
  with terminal have "GetRWType ctx' s = DELETE \<or> GetRWType ctx' s = INS_DEL" by simp
  then show ?thesis using eq by (auto simp: Record_defs)
qed

theorem terminal_modes_abort_witness:
  "GetRWType (state_of (run (TransactionContext3 1 SERIALIZABLE 0 :: nat TransactionContext)
       [CallInsert (ItemPointer 2 3), CallDelete (ItemPointer 2 3)])) (ItemPointer 2 3) = INS_DEL
   \<and> \<not> isl (run (state_of (run (TransactionContext3 1 SERIALIZABLE 0 :: nat TransactionContext)
       [CallInsert (ItemPointer 2 3), CallDelete (ItemPointer 2 3)])) [CallRead (ItemPointer 1 0)])
   \<and> isl (RecordRead (ItemPointer 2 3)
        (state_of (run (TransactionContext3 1 SERIALIZABLE 0 :: nat TransactionContext)
          [CallInsert (ItemPointer 2 3), CallDelete (ItemPointer 2 3), CallRead (ItemPointer 1 0)])))
   \<and> isl (RecordDelete (ItemPointer 2 3)
        (state_of (run (TransactionContext3 1 SERIALIZABLE 0 :: nat TransactionContext)
          [CallInsert (ItemPointer 2 3), CallDelete (ItemPointer 2 3), CallRead (ItemPointer 1 0)])))"
proof -
  let ?c0 = "TransactionContext3 1 SERIALIZABLE 0 :: nat TransactionContext"
  let ?c1 = "state_of (run ?c0 [CallInsert (ItemPointer 2 3), CallDelete (ItemPointer 2 3)])"
  let ?c2 = "state_of (run ?c0
    [CallInsert (ItemPointer 2 3), CallDelete (ItemPointer 2 3), CallRead (ItemPointer 1 0)])"
  have m: "GetRWType ?c1 (ItemPointer 2 3) = DELETE \<or> GetRWType ?c1 (ItemPointer 2 3) = INS_DEL"
    by (simp add: Record_defs GetRWType_def)
  have r: "run ?c1 [CallRead (ItemPointer 1 0)] = Inr ?c2"
    by (simp add: Record_defs GetRWType_def)
  from terminal_modes_abort [OF m r] show ?thesis
    using r by (simp add: Record_defs GetRWType_def)
qed

text \<open>
  Claim C6. After \<^verbatim>\<open>Init\<close> and after either constructor, \<^verbatim>\<open>epoch_id_\<close> is
  \<^verbatim>\<open>read_id_ >> 32\<close> and \<^verbatim>\<open>txn_id_\<close> is \<^verbatim>\<open>commit_id_\<close>: the supplied commit id in the
  four-argument form, \<^verbatim>\<open>INVALID_CID\<close> (which is 0) in the three-argument form.
\<close>

theorem Init_epoch_and_transaction_id:
  "epoch_id (Init tid lvl rid cid (ctx :: 'td TransactionContext))
     = drop_bit 32 (read_id (Init tid lvl rid cid ctx)) \<and>
   read_id (Init tid lvl rid cid ctx) = rid \<and>
   commit_id (Init tid lvl rid cid ctx) = cid \<and>
   txn_id (Init tid lvl rid cid ctx) = cid \<and>
   epoch_id (Init3 tid lvl rid ctx) = drop_bit 32 (read_id (Init3 tid lvl rid ctx)) \<and>
   read_id (Init3 tid lvl rid ctx) = rid \<and>
   commit_id (Init3 tid lvl rid ctx) = INVALID_CID \<and>
   txn_id (Init3 tid lvl rid ctx) = INVALID_CID \<and>
   epoch_id (TransactionContext4 tid lvl rid cid :: 'td TransactionContext) = drop_bit 32 rid \<and>
   read_id (TransactionContext4 tid lvl rid cid :: 'td TransactionContext) = rid \<and>
   commit_id (TransactionContext4 tid lvl rid cid :: 'td TransactionContext) = cid \<and>
   txn_id (TransactionContext4 tid lvl rid cid :: 'td TransactionContext) = cid \<and>
   epoch_id (TransactionContext3 tid lvl rid :: 'td TransactionContext) = drop_bit 32 rid \<and>
   read_id (TransactionContext3 tid lvl rid :: 'td TransactionContext) = rid \<and>
   commit_id (TransactionContext3 tid lvl rid :: 'td TransactionContext) = INVALID_CID \<and>
   txn_id (TransactionContext3 tid lvl rid :: 'td TransactionContext) = INVALID_CID \<and>
   INVALID_CID = 0"
  by (simp add: Init_def Init3_def TransactionContext3_def TransactionContext4_def INVALID_CID_def)

theorem Init_epoch_and_transaction_id_witness:
  "epoch_id (TransactionContext4 3 SNAPSHOT 0x0000000500000007 9 :: nat TransactionContext) = 5 \<and>
   txn_id (TransactionContext4 3 SNAPSHOT 0x0000000500000007 9 :: nat TransactionContext) = 9 \<and>
   txn_id (TransactionContext3 3 SNAPSHOT 0x0000000500000007 :: nat TransactionContext) = 0"
  using Init_epoch_and_transaction_id [of 3 SNAPSHOT "0x0000000500000007" 9 "default_members :: nat TransactionContext"]
  by (simp add: INVALID_CID_def)

text \<open>
  Claim C7. After any sequence of \<^verbatim>\<open>Record*\<close> calls on a fresh context, completed or aborted,
  no entry of \<^verbatim>\<open>rw_set_\<close> has mode \<^verbatim>\<open>INVALID\<close>; \<^verbatim>\<open>GetRWType\<close> returns \<^verbatim>\<open>INVALID\<close> exactly for
  the locations without an entry; every stored mode is one of \<^verbatim>\<open>READ\<close>, \<^verbatim>\<open>READ_OWN\<close>,
  \<^verbatim>\<open>UPDATE\<close>, \<^verbatim>\<open>INSERT\<close>, \<^verbatim>\<open>DELETE\<close>, \<^verbatim>\<open>INS_DEL\<close>.
\<close>

theorem rw_set_never_holds_INVALID:
  assumes fresh: "ctx0 = TransactionContext3 tid lvl rid \<or> ctx0 = TransactionContext4 tid lvl rid cid"
  shows "(\<forall>l. rw_set (state_of (run ctx0 calls)) l \<noteq> Some INVALID) \<and>
         (\<forall>l. GetRWType (state_of (run ctx0 calls)) l = INVALID
                \<longleftrightarrow> rw_set (state_of (run ctx0 calls)) l = None) \<and>
         ran (rw_set (state_of (run ctx0 calls)))
           \<subseteq> {READ, READ_OWN, UPDATE, INSERT, DELETE, INS_DEL}"
proof -
  let ?st = "state_of (run ctx0 calls)"
  from fresh have "\<forall>l. rw_set ctx0 l \<noteq> Some INVALID" by auto
  from run_no_INVALID [OF this] have a: "\<forall>l. rw_set ?st l \<noteq> Some INVALID" .
  have b: "GetRWType ?st l = INVALID \<longleftrightarrow> rw_set ?st l = None" for l
    using a by (auto simp: GetRWType_def split: option.splits)
  have c: "t \<in> {READ, READ_OWN, UPDATE, INSERT, DELETE, INS_DEL}" if "t \<in> ran (rw_set ?st)" for t
    using that a by (cases t) (auto simp: ran_def)
  from a b c show ?thesis by blast
qed

theorem rw_set_never_holds_INVALID_witness:
  "rw_set (state_of (run (TransactionContext3 1 SERIALIZABLE 0 :: nat TransactionContext)
      [CallRead (ItemPointer 1 0), CallDelete (ItemPointer 3 0), CallRead (ItemPointer 3 0)]))
     (ItemPointer 3 0) = Some DELETE \<and>
   GetRWType (state_of (run (TransactionContext3 1 SERIALIZABLE 0 :: nat TransactionContext)
      [CallRead (ItemPointer 1 0), CallDelete (ItemPointer 3 0), CallRead (ItemPointer 3 0)]))
     (ItemPointer 7 7) = INVALID \<and>
   rw_set (state_of (run (TransactionContext3 1 SERIALIZABLE 0 :: nat TransactionContext)
      [CallRead (ItemPointer 1 0), CallDelete (ItemPointer 3 0), CallRead (ItemPointer 3 0)]))
     (ItemPointer 7 7) = None"
  using rw_set_never_holds_INVALID [of "TransactionContext3 1 SERIALIZABLE 0 :: nat TransactionContext"
      1 SERIALIZABLE 0 0
      "[CallRead (ItemPointer 1 0), CallDelete (ItemPointer 3 0), CallRead (ItemPointer 3 0)]",
      OF disjI1 [OF refl]]
  by (simp add: Record_defs GetRWType_def)

text \<open>
  Claim C8. On a fresh context, \<^verbatim>\<open>RecordRead\<close>, \<^verbatim>\<open>RecordReadOwn\<close>, \<^verbatim>\<open>RecordUpdate\<close> and
  \<^verbatim>\<open>RecordDelete\<close> on the slot (4, 0), in this order, all complete; \<^verbatim>\<open>RecordDelete\<close> returns
  false, and at the end \<^verbatim>\<open>rw_set_\<close> holds the single entry (4, 0) with mode \<^verbatim>\<open>DELETE\<close>,
  \<^verbatim>\<open>is_written_\<close> is true and \<^verbatim>\<open>insert_count_\<close> is 0.
\<close>

theorem upgrade_chain:
  assumes "ctx0 = TransactionContext3 tid lvl rid \<or> ctx0 = TransactionContext4 tid lvl rid cid"
  shows "\<exists>c1 c2 c3 c4.
     RecordRead (ItemPointer 4 0) ctx0 = Inr c1 \<and>
     RecordReadOwn (ItemPointer 4 0) c1 = Inr c2 \<and>
     RecordUpdate (ItemPointer 4 0) c2 = Inr c3 \<and>
     RecordDelete (ItemPointer 4 0) c3 = Inr (False, c4) \<and>
     run ctx0 [CallRead (ItemPointer 4 0), CallReadOwn (ItemPointer 4 0),
               CallUpdate (ItemPointer 4 0), CallDelete (ItemPointer 4 0)] = Inr c4 \<and>
     rw_set c4 = [ItemPointer 4 0 \<mapsto> DELETE] \<and> is_written c4 \<and> insert_count c4 = 0"
  using assms by (auto simp: Record_defs GetRWType_def)

theorem upgrade_chain_witness:
  "rw_set (state_of (run (TransactionContext3 1 SERIALIZABLE 0 :: nat TransactionContext)
     [CallRead (ItemPointer 4 0), CallReadOwn (ItemPointer 4 0),
      CallUpdate (ItemPointer 4 0), CallDelete (ItemPointer 4 0)])) = [ItemPointer 4 0 \<mapsto> DELETE]
   \<and> is_written (state_of (run (TransactionContext3 1 SERIALIZABLE 0 :: nat TransactionContext)
     [CallRead (ItemPointer 4 0), CallReadOwn (ItemPointer 4 0),
      CallUpdate (ItemPointer 4 0), CallDelete (ItemPointer 4 0)]))"
  using upgrade_chain [of "TransactionContext3 1 SERIALIZABLE 0 :: nat TransactionContext"
      1 SERIALIZABLE 0, OF disjI1 [OF refl]]
  by auto

text \<open>
  Claim C9. After \<^verbatim>\<open>AddOnCommitTrigger\<close> calls registering \<open>ts\<close>,
  \<^verbatim>\<open>ExecOnCommitTriggers\<close> executes the triggers registered so far in registration order: on
  a fresh context exactly \<open>ts\<close>, in order. With no trigger ever registered the pointer is
  null and \<^verbatim>\<open>ExecOnCommitTriggers\<close> does nothing.
\<close>

theorem triggers_run_in_registration_order:
  "ExecOnCommitTriggers (fold AddOnCommitTrigger ts ctx) executed =
     executed @ (case on_commit_triggers ctx of None \<Rightarrow> [] | Some old \<Rightarrow> old) @ ts \<and>
   ExecOnCommitTriggers
     (fold AddOnCommitTrigger ts (TransactionContext3 tid lvl rid :: 'td TransactionContext)) executed =
     executed @ ts \<and>
   ExecOnCommitTriggers
     (fold AddOnCommitTrigger ts (TransactionContext4 tid lvl rid cid :: 'td TransactionContext)) executed =
     executed @ ts \<and>
   on_commit_triggers (TransactionContext3 tid lvl rid :: 'td TransactionContext) = None \<and>
   on_commit_triggers (TransactionContext4 tid lvl rid cid :: 'td TransactionContext) = None \<and>
   (on_commit_triggers ctx = None \<longrightarrow> ExecOnCommitTriggers ctx executed = executed)"
proof -
  have gen: "ExecOnCommitTriggers (fold AddOnCommitTrigger ts c) executed =
     executed @ (case on_commit_triggers c of None \<Rightarrow> [] | Some old \<Rightarrow> old) @ ts"
    for c :: "'td TransactionContext"
  proof (cases "ts = []")
    case True
    then show ?thesis
      by (simp add: ExecOnCommitTriggers_def ExecTriggers_append split: option.splits)
  next
    case False
    from fold_AddOnCommitTrigger_triggers [OF False, of c] show ?thesis
      by (simp add: ExecOnCommitTriggers_def ExecTriggers_append)
  qed
  show ?thesis
    using gen [of ctx] gen [of "TransactionContext3 tid lvl rid"]
      gen [of "TransactionContext4 tid lvl rid cid"]
    by (simp add: ExecOnCommitTriggers_def)
qed

theorem triggers_run_in_registration_order_witness:
  "ExecOnCommitTriggers
     (AddOnCommitTrigger ''T3'' (AddOnCommitTrigger ''T2'' (AddOnCommitTrigger ''T1''
        (TransactionContext3 1 SERIALIZABLE 0)))) [] = [''T1'', ''T2'', ''T3''] \<and>
   on_commit_triggers (TransactionContext3 1 SERIALIZABLE 0 :: string TransactionContext) = None \<and>
   ExecOnCommitTriggers (TransactionContext3 1 SERIALIZABLE 0 :: string TransactionContext) [] = []"
  using triggers_run_in_registration_order [of "[''T1'', ''T2'', ''T3'']"
      "TransactionContext3 1 SERIALIZABLE 0 :: string TransactionContext" "[]" 1 SERIALIZABLE 0 0]
  by simp

text \<open>
  Claim C10. \<^verbatim>\<open>Init\<close> leaves \<^verbatim>\<open>rw_set_\<close> as it was, while it resets \<^verbatim>\<open>is_written_\<close>,
  \<^verbatim>\<open>insert_count_\<close>, the two garbage sets and the trigger list. So after \<^verbatim>\<open>Init\<close> on a context
  with an \<^verbatim>\<open>INSERT\<close> entry, \<^verbatim>\<open>insert_count_\<close> is 0 and the \<^verbatim>\<open>INSERT\<close> entry is still there.
\<close>

theorem Init_keeps_rw_set:
  "rw_set (Init tid lvl rid cid ctx) = rw_set ctx \<and>
   is_written (Init tid lvl rid cid ctx) = False \<and>
   insert_count (Init tid lvl rid cid ctx) = 0 \<and>
   gc_set (Init tid lvl rid cid ctx) = Some Map.empty \<and>
   gc_object_set (Init tid lvl rid cid ctx) = Some [] \<and>
   on_commit_triggers (Init tid lvl rid cid ctx) = None \<and>
   (GetRWType ctx s = INSERT \<longrightarrow>
      GetRWType (Init tid lvl rid cid ctx) s = INSERT \<and> insert_count (Init tid lvl rid cid ctx) = 0 \<and>
      s \<in> insert_slots (Init tid lvl rid cid ctx))"
  by (auto simp add: Init_def GetRWType_def insert_slots_def split: option.splits)

theorem Init_keeps_rw_set_witness:
  "GetRWType (state_of (RecordInsert (ItemPointer 2 3)
      (TransactionContext3 1 SERIALIZABLE 0 :: nat TransactionContext))) (ItemPointer 2 3) = INSERT \<and>
   insert_count (state_of (RecordInsert (ItemPointer 2 3)
      (TransactionContext3 1 SERIALIZABLE 0 :: nat TransactionContext))) = 1 \<and>
   GetRWType (Init 1 SERIALIZABLE 8 9 (state_of (RecordInsert (ItemPointer 2 3)
      (TransactionContext3 1 SERIALIZABLE 0 :: nat TransactionContext)))) (ItemPointer 2 3) = INSERT \<and>
   insert_count (Init 1 SERIALIZABLE 8 9 (state_of (RecordInsert (ItemPointer 2 3)
      (TransactionContext3 1 SERIALIZABLE 0 :: nat TransactionContext)))) = 0"
proof -
  let ?c = "state_of (RecordInsert (ItemPointer 2 3)
      (TransactionContext3 1 SERIALIZABLE 0 :: nat TransactionContext))"
  have m: "GetRWType ?c (ItemPointer 2 3) = INSERT" and n: "insert_count ?c = 1"
    by (simp_all add: RecordInsert_def GetRWType_def)
  from Init_keeps_rw_set [of 1 SERIALIZABLE 8 9 ?c "ItemPointer 2 3"] m n
  show ?thesis by simp
qed

end
